theory Spec2Isabelle
  imports Main "HOL-Library.Word"
begin

unbundle bit_operations_syntax

section \<open>Data model\<close>

text \<open>
  Go's fixed-width unsigned integers are words: arithmetic wraps, \<open>unat\<close> reads the
  value. \<open>uint\<close> and \<open>int\<close> are the 64-bit types of the usual targets.
\<close>

type_synonym u8 = "8 word"
type_synonym u32 = "32 word"
type_synonym u64 = "64 word"
type_synonym u256 = "256 word"

text \<open>
  A Go run-time panic aborts the call; it is the left summand of every result that can
  panic. \<open>PanicError\<close> is \<open>panic(err)\<close> with the error's message.
\<close>

datatype panic = DivideByZero | IndexOutOfRange | PanicError string

type_synonym 'a result = "panic + 'a"

text \<open>
  \<open>transactions.LuTx\<close> as wallet.go uses it (fields \<open>TxFrom\<close>, \<open>TxTo\<close>,
  \<open>Value\<close>, \<open>Fee\<close>, \<open>Nonce\<close>, \<open>Signature\<close>). The Go field \<open>Nonce\<close> is
  \<open>TxNonce\<close> here, since \<open>Block\<close> has a field of that name too.
\<close>

record LuTx =
  TxFrom :: string
  TxTo :: string
  Value :: u64
  Fee :: u64
  TxNonce :: u32
  Signature :: string

text \<open>\<open>blockchain.Block\<close>, by the fields blockchain.go and wallet.go read and write.\<close>

record Block =
  SoftwareVersion :: string
  PrevHash :: string
  MerkleRoot :: string
  Timestamp :: u64
  PackedTarget :: u32
  Nonce :: u32
  Miner :: string
  Txs :: "LuTx list"
  BlockHash :: string

text \<open>\<open>Block{}\<close>: every field at its zero value.\<close>

definition empty_Block :: Block where
  "empty_Block =
     \<lparr>SoftwareVersion = [], PrevHash = [], MerkleRoot = [], Timestamp = 0,
      PackedTarget = 0, Nonce = 0, Miner = [], Txs = [], BlockHash = []\<rparr>"

record Blockchain =
  Blocks :: "Block list"
  height :: u64

section \<open>Ledger (blockchain.go)\<close>

text \<open>
  \<open>GetBlockReward\<close>: \<open>halvings\<close> is a \<open>uint32\<close>; the returned expression is a
  \<open>uint64\<close>, so the untyped constant \<open>2\<close> of the non-constant shift is a \<open>uint64\<close>
  and the shift drops every bit pushed past bit 63. Go's integer division panics on a
  zero divisor.
\<close>

definition GetBlockReward :: "u32 \<Rightarrow> u64 result" where
  "GetBlockReward h =
     (let halvings = h div 525600 in
      if halvings = 0 then Inr (200 * 1000000)
      else
        (let d = push_bit (unat (halvings - 1)) (2 :: u64) in
         if d = 0 then Inl DivideByZero
         else Inr ((200 div d) * 1000000)))"

text \<open>
  \<open>GetHeight\<close> stores \<open>uint(len(b.Blocks) - 1)\<close> in \<open>b.height\<close> and returns it: the
  value and the updated chain.
\<close>

definition GetHeight :: "Blockchain \<Rightarrow> u64 \<times> Blockchain" where
  "GetHeight b =
     (let h = (word_of_int (int (length (Blocks b)) - 1) :: u64)
      in (h, b\<lparr>height := h\<rparr>))"

text \<open>A slice read \<open>xs[i]\<close> with a \<open>uint\<close> index: out of range it panics.\<close>

definition slice_at :: "'a list \<Rightarrow> u64 \<Rightarrow> 'a result" where
  "slice_at xs i = (if unat i < length xs then Inr (xs ! unat i) else Inl IndexOutOfRange)"

definition GetBlock :: "Blockchain \<Rightarrow> u64 \<Rightarrow> (Block \<times> bool) result \<times> Blockchain" where
  "GetBlock b blockNum =
     (let (h, b') = GetHeight b in
      if blockNum > h then (Inr (empty_Block, False), b')
      else
        (case slice_at (Blocks b') blockNum of
           Inl p \<Rightarrow> (Inl p, b')
         | Inr blk \<Rightarrow> (Inr (blk, True), b')))"

section \<open>Collaborators outside the sources\<close>

text \<open>
  The packages \<open>utilities\<close> and \<open>ellip\<close>, \<open>block.go\<close> and the libraries
  (\<open>sha3\<close>, \<open>encoding/json\<close>) are not among the sources. What the code calls of
  them is a parameter: the SHAKE-256 output stream of an input (byte \<open>i\<close> of the
  output), the byte encoders, the block's byte form (\<open>None\<close> is Go's \<open>nil\<close>), the
  Merkle root, the transaction's JSON form and the signature check.
\<close>

record externals =
  utilities_SoftwareVersion :: string
  shake256 :: "u8 list \<Rightarrow> nat \<Rightarrow> u8"
  Uint32toB :: "u32 \<Rightarrow> u8 list"
  Uint64toB :: "u64 \<Rightarrow> u8 list"
  ParseBlockToBytes :: "Block \<Rightarrow> u8 list option"
  GetMerkleRoot :: "Block \<Rightarrow> string"
  AsBytes :: "LuTx \<Rightarrow> u8 list"
  ValidateSig :: "u8 list \<Rightarrow> u8 list \<Rightarrow> u8 list \<Rightarrow> bool"

text \<open>\<open>sha3.ShakeSum256(hash, data)\<close> fills the whole of \<open>hash\<close>, here \<open>n\<close> bytes.\<close>

definition ShakeSum256 :: "externals \<Rightarrow> nat \<Rightarrow> u8 list \<Rightarrow> u8 list" where
  "ShakeSum256 ext n data = map (shake256 ext data) [0..<n]"

text \<open>
  \<open>encoding/hex\<close>: \<open>EncodeToString\<close>, and \<open>DecodeString\<close> as the code uses it,
  with the error dropped: the bytes decoded before the first bad character or the odd
  last one.
\<close>

definition hextable :: string where
  "hextable = ''0123456789abcdef''"

definition EncodeToString :: "u8 list \<Rightarrow> string" where
  "EncodeToString src =
     concat (map (\<lambda>v. [hextable ! unat (drop_bit 4 v), hextable ! unat (v AND 0x0f)]) src)"

definition fromHexChar :: "char \<Rightarrow> u8 option" where
  "fromHexChar c =
     (let n = (of_char c :: nat) in
      if 48 \<le> n \<and> n \<le> 57 then Some (of_nat (n - 48))
      else if 97 \<le> n \<and> n \<le> 102 then Some (of_nat (n - 97 + 10))
      else if 65 \<le> n \<and> n \<le> 70 then Some (of_nat (n - 65 + 10))
      else None)"

fun DecodeString :: "string \<Rightarrow> u8 list" where
  "DecodeString (p # q # rest) =
     (case fromHexChar p of
        None \<Rightarrow> []
      | Some a \<Rightarrow>
          (case fromHexChar q of
             None \<Rightarrow> []
           | Some b \<Rightarrow> (push_bit 4 a OR b) # DecodeString rest))"
| "DecodeString _ = []"

section \<open>Account view (wallet.go)\<close>

text \<open>
  \<open>ScanChainForBalance\<close>: the inner loop over the transactions of one block and the
  outer loop over the blocks, each by its index. The \<open>height\<close> that \<open>GetHeight\<close>
  stores is read nowhere, so the scan keeps the chain it was given. \<open>int(...)\<close> of the
  height is the signed reading, \<open>uint32(index)\<close> the truncation.
\<close>

function ScanChainForBalance_txs :: "string \<Rightarrow> LuTx list \<Rightarrow> nat \<Rightarrow> u64 \<Rightarrow> u64" where
  "ScanChainForBalance_txs pubKey txs txIndex balance =
     (if txIndex < length txs then
        ScanChainForBalance_txs pubKey txs (txIndex + 1)
          (if TxTo (txs ! txIndex) = pubKey then balance + Value (txs ! txIndex) else balance)
      else balance)"
  by pat_completeness auto
termination
  by (relation "measure (\<lambda>(pubKey, txs, txIndex, balance). length txs - txIndex)") auto

function ScanChainForBalance_blocks :: "Blockchain \<Rightarrow> string \<Rightarrow> nat \<Rightarrow> u64 \<Rightarrow> u64 result" where
  "ScanChainForBalance_blocks c pubKey index balance =
     (if index < length (Blocks c) then
        (if Miner (Blocks c ! index) = pubKey \<and> int index + 10 < sint (fst (GetHeight c)) then
           (case GetBlockReward (word_of_nat index) of
              Inl p \<Rightarrow> Inl p
            | Inr reward \<Rightarrow>
                ScanChainForBalance_blocks c pubKey (index + 1)
                  (ScanChainForBalance_txs pubKey (Txs (Blocks c ! index)) 0 (balance + reward)))
         else
           ScanChainForBalance_blocks c pubKey (index + 1)
             (ScanChainForBalance_txs pubKey (Txs (Blocks c ! index)) 0 balance))
      else Inr balance)"
  by pat_completeness auto
termination
  by (relation "measure (\<lambda>(c, pubKey, index, balance). length (Blocks c) - index)") auto

definition ScanChainForBalance :: "Blockchain \<Rightarrow> string \<Rightarrow> u64 result" where
  "ScanChainForBalance c pubKey = ScanChainForBalance_blocks c pubKey 0 0"

function ScanChainForNonce_txs :: "string \<Rightarrow> LuTx list \<Rightarrow> nat \<Rightarrow> u32 \<Rightarrow> u32" where
  "ScanChainForNonce_txs pubKey txs txIndex nonce =
     (if txIndex < length txs then
        ScanChainForNonce_txs pubKey txs (txIndex + 1)
          (if TxFrom (txs ! txIndex) = pubKey then nonce + 1 else nonce)
      else nonce)"
  by pat_completeness auto
termination
  by (relation "measure (\<lambda>(pubKey, txs, txIndex, nonce). length txs - txIndex)") auto

function ScanChainForNonce_blocks :: "Blockchain \<Rightarrow> string \<Rightarrow> nat \<Rightarrow> u32 \<Rightarrow> u32" where
  "ScanChainForNonce_blocks c pubKey index nonce =
     (if index < length (Blocks c) then
        ScanChainForNonce_blocks c pubKey (index + 1)
          (ScanChainForNonce_txs pubKey (Txs (Blocks c ! index)) 0 nonce)
      else nonce)"
  by pat_completeness auto
termination
  by (relation "measure (\<lambda>(c, pubKey, index, nonce). length (Blocks c) - index)") auto

definition ScanChainForNonce :: "Blockchain \<Rightarrow> string \<Rightarrow> u32" where
  "ScanChainForNonce c pubKey = ScanChainForNonce_blocks c pubKey 0 0"

text \<open>
  \<open>VerifyTx\<close>: the balance test is the code's unsigned
  \<open>balance - (Value + Fee) > 0\<close>; then the nonce; then the signature over the
  transaction with its signature cleared.
\<close>

definition VerifyTx :: "externals \<Rightarrow> Blockchain \<Rightarrow> LuTx \<Rightarrow> bool result" where
  "VerifyTx ext c tx =
     (case ScanChainForBalance c (TxFrom tx) of
        Inl p \<Rightarrow> Inl p
      | Inr balance \<Rightarrow>
          if balance - (Value tx + Fee tx) > 0 then Inr False
          else if TxNonce tx \<noteq> ScanChainForNonce c (TxFrom tx) then Inr False
          else
            (let signature = DecodeString (Signature tx);
                 txBytes = AsBytes ext (tx\<lparr>Signature := []\<rparr>);
                 txHash = ShakeSum256 ext 32 txBytes;
                 pubKey = DecodeString (TxFrom tx)
             in Inr (ValidateSig ext pubKey txHash signature)))"

section \<open>Target codec\<close>

text \<open>
  Modelled from the spec: \<open>utilities.TargetUnpacker.Unpack\<close>, whose source is not in
  the repository's files. Section 4.1: \<open>exp = compact >> 24\<close>,
  \<open>mantissa = compact & 0x00FFFFFF\<close>; the target is \<open>mantissa >> (8*(3-exp))\<close> if
  \<open>exp \<le> 3\<close>, else \<open>mantissa << (8*(exp-3))\<close>, a 256-bit unsigned integer.
\<close>

definition Unpack :: "u32 \<Rightarrow> u256" where
  "Unpack compact =
     (let exp = drop_bit 24 compact; mantissa = compact AND 0x00FFFFFF in
      if exp \<le> 3 then ucast (drop_bit (8 * (3 - unat exp)) mantissa)
      else push_bit (8 * (unat exp - 3)) (ucast mantissa))"

text \<open>The bytes of a number, most significant first, in a given number of bytes.\<close>

fun be_bytes :: "nat \<Rightarrow> nat \<Rightarrow> u8 list" where
  "be_bytes 0 v = []"
| "be_bytes (Suc k) v = word_of_nat (v div 256 ^ k) # be_bytes k (v mod 256 ^ k)"

text \<open>The number a byte string reads as, most significant byte first.\<close>

fun be_nat :: "u8 list \<Rightarrow> nat" where
  "be_nat [] = 0"
| "be_nat (x # xs) = unat x * 256 ^ length xs + be_nat xs"

text \<open>
  Modelled from the spec: \<open>utilities.TargetUnpacker.UnpackAsBytes\<close>, whose source is not
  in the repository's files. Section 4.4 compares the 32-byte hash numerically, as a
  big-endian unsigned integer, with the unpacked target: the target's 32 bytes, most
  significant first.
\<close>

definition UnpackAsBytes :: "u32 \<Rightarrow> u8 list" where
  "UnpackAsBytes compact = be_bytes 32 (unat (Unpack compact))"

text \<open>
  Modelled from the spec: \<open>utilities.TargetPacker.PackTargetUint256\<close>, whose source is
  not in the repository's files. Section 4.1: \<open>exp\<close> is the least number of bytes the
  target fits in, the mantissa its top three significant bytes; when the mantissa's top
  bit is set it is shifted down one byte and \<open>exp\<close> incremented; the result is
  \<open>exp<<24 | mantissa\<close>.
\<close>

fun byte_length :: "nat \<Rightarrow> nat" where
  "byte_length n = (if n = 0 then 0 else Suc (byte_length (n div 256)))"

definition PackTargetUint256 :: "u256 \<Rightarrow> u32" where
  "PackTargetUint256 target =
     (let exp = byte_length (unat target);
          mantissa = (if exp \<le> 3 then unat target * 256 ^ (3 - exp)
                      else unat target div 256 ^ (exp - 3))
      in if mantissa div 2 ^ 23 mod 2 = 1
         then push_bit 24 (word_of_nat (exp + 1)) OR word_of_nat (mantissa div 256)
         else push_bit 24 (word_of_nat exp) OR word_of_nat mantissa)"

section \<open>Retarget (blockchain.go)\<close>

text \<open>
  \<open>CalculatePackedTarget\<close>. The timestamps are \<open>uint64\<close>: their difference wraps and
  the division panics on zero. Modelled from the spec: the conversion of the multiplier
  to a \<open>UInt256\<close> (\<open>Uint64toB\<close> and \<open>Set\<close>) keeps its value, \<open>Multiply\<close> is the
  256-bit product and \<open>Compare\<close> the unsigned order (\<open>types.UInt256\<close> and
  \<open>utilities.ByteUtil\<close> are not in the repository's files).
\<close>

definition CalculatePackedTarget :: "Blockchain \<Rightarrow> u64 \<Rightarrow> u32 result" where
  "CalculatePackedTarget b blockNumber =
     (if blockNumber > word_of_nat (length (Blocks b)) then Inr 0
      else if blockNumber mod 10080 = 0 then
        (case slice_at (Blocks b) (blockNumber - 1) of
           Inl p \<Rightarrow> Inl p
         | Inr prev \<Rightarrow>
             (case slice_at (Blocks b) (blockNumber - 10080) of
                Inl p \<Rightarrow> Inl p
              | Inr first \<Rightarrow>
                  (let time = Timestamp prev - Timestamp first in
                   if time = 0 then Inl DivideByZero
                   else
                     (let newMultiplier = (10080 * 60) div time;
                          bigNewMultiplier = (ucast newMultiplier :: u256);
                          target = Unpack (PackedTarget prev);
                          newTarget = target * bigNewMultiplier;
                          maxTarget = Unpack 0x1d0fffff
                      in if newTarget > maxTarget then Inr 0x1d0fffff
                         else Inr (PackTargetUint256 newTarget)))))
      else
        (case slice_at (Blocks b) (blockNumber - 1) of
           Inl p \<Rightarrow> Inl p
         | Inr prev \<Rightarrow> Inr (PackedTarget prev)))"

section \<open>Miner (blockchain.go)\<close>

text \<open>\<open>bytes.Compare\<close>: the lexicographic order of two byte strings, as -1, 0 or 1.\<close>

fun Compare :: "u8 list \<Rightarrow> u8 list \<Rightarrow> int" where
  "Compare [] [] = 0"
| "Compare [] (y # ys) = - 1"
| "Compare (x # xs) [] = 1"
| "Compare (x # xs) (y # ys) =
     (if x < y then - 1 else if y < x then 1 else Compare xs ys)"

record Miner =
  inputBlockBytes :: "u8 list"
  packedTarget :: u32
  hashData :: "u8 list"
  currentHash :: "u8 list"
  unpackedTarget :: "u8 list"

text \<open>\<open>inputTarget\<close>: the error it returns (\<open>None\<close> is \<open>nil\<close>) and the miner.\<close>

definition inputTarget :: "Miner \<Rightarrow> u32 \<Rightarrow> string option \<times> Miner" where
  "inputTarget m t =
     (if t = 0 then (Some ''cannot input target 0'', m)
      else if t > 0x1dffffff then (Some ''target is to large'', m)
      else (None, m\<lparr>packedTarget := t\<rparr>))"

text \<open>
  The mining loop of \<open>Start\<close>, from the loop test on. \<open>b.Nonce\<close> is a \<open>uint32\<close>, so
  \<open>b.Nonce++\<close> wraps. The clock is read once per iteration: \<open>clock tick\<close> is its
  value at iteration \<open>tick\<close>. Not returning is \<open>None\<close>. Modelled from the spec:
  \<open>SetTimestamp\<close> and \<open>SetBlockHash\<close> (\<open>block.go\<close> is not in the repository's
  files) set the block's timestamp and its hash, the hash in hex.
\<close>

partial_function (option) mining ::
  "externals \<Rightarrow> (nat \<Rightarrow> u64) \<Rightarrow> Miner \<Rightarrow> Block \<Rightarrow> nat \<Rightarrow> (Block \<times> string option) option"
where
  "mining ext clock m b tick =
     (if Nonce b \<le> 0xFFFFFFFF then
        (let b1 = b\<lparr>Timestamp := clock tick\<rparr>;
             m1 = m\<lparr>hashData := inputBlockBytes m @ Uint32toB ext (Nonce b1)\<rparr>;
             m2 = m1\<lparr>currentHash := ShakeSum256 ext 32 (hashData m1)\<rparr>
         in if Compare (currentHash m2) (unpackedTarget m2) \<noteq> 1
            then Some (b1\<lparr>BlockHash := EncodeToString (currentHash m2)\<rparr>, None)
            else mining ext clock m2 (b1\<lparr>Nonce := Nonce b1 + 1\<rparr>) (Suc tick))
      else Some (b, Some ''you have reached the end of the defined search space! Impressive''))"

text \<open>
  \<open>Start\<close>: the pair \<open>(Block, error)\<close> it returns, a panic, or \<open>None\<close> when it does
  not return.
\<close>

definition Start ::
  "externals \<Rightarrow> (nat \<Rightarrow> u64) \<Rightarrow> Miner \<Rightarrow> Block \<Rightarrow> (Block \<times> string option) result option"
where
  "Start ext clock m b =
     (case ParseBlockToBytes ext b of
        None \<Rightarrow> Some (Inr (b, Some ''please input a block with data inside it''))
      | Some bytes \<Rightarrow>
          (let m1 = m\<lparr>inputBlockBytes := bytes\<rparr>;
               (unpackErr, m2) = inputTarget m1 (PackedTarget b)
           in case unpackErr of
                Some e \<Rightarrow> Some (Inl (PanicError e))
              | None \<Rightarrow>
                  (let m3 = m2\<lparr>unpackedTarget := UnpackAsBytes (packedTarget m2)\<rparr>
                   in map_option Inr (mining ext clock m3 (b\<lparr>Nonce := 0\<rparr>) 0))))"

text \<open>
  Whether a nonce passes the loop's test: the hash of the block bytes followed by the
  nonce does not compare above the target bytes.
\<close>

definition solves :: "externals \<Rightarrow> u8 list \<Rightarrow> u8 list \<Rightarrow> u32 \<Rightarrow> bool" where
  "solves ext bytes target n =
     (Compare (ShakeSum256 ext 32 (bytes @ Uint32toB ext n)) target \<noteq> 1)"

section \<open>Validator (wallet.go)\<close>

text \<open>
  Modelled from the spec: \<open>Block.RemoveTx\<close> (\<open>block.go\<close> is not in the repository's
  files). Section 4.6: the transaction is removed from the block in place; the element
  at the index goes and the later ones move down, as \<open>RemoveBlock\<close> does for blocks.
\<close>

definition RemoveTx :: "LuTx list \<Rightarrow> nat \<Rightarrow> LuTx list" where
  "RemoveTx txs i = take i txs @ drop (Suc i) txs"

text \<open>
  The transaction loop of \<open>VerifyBlock\<close>: \<open>index\<close> advances by one in every
  iteration, also after a removal, and the bound is the current length.
\<close>

function VerifyBlock_txs :: "(LuTx \<Rightarrow> bool result) \<Rightarrow> LuTx list \<Rightarrow> nat \<Rightarrow> LuTx list result" where
  "VerifyBlock_txs verify txs index =
     (if index < length txs then
        (case verify (txs ! index) of
           Inl p \<Rightarrow> Inl p
         | Inr ok \<Rightarrow>
             if \<not> ok then VerifyBlock_txs verify (RemoveTx txs index) (index + 1)
             else VerifyBlock_txs verify txs (index + 1))
      else Inr txs)"
  by pat_completeness auto
termination
  by (relation "measure (\<lambda>(verify, txs, index). length txs - index)")
    (auto simp: RemoveTx_def)

text \<open>\<open>[]byte(s)\<close> of a string.\<close>

definition bytes_of :: "string \<Rightarrow> u8 list" where
  "bytes_of s = map (\<lambda>c. word_of_nat (of_char c)) s"

definition header_hash :: "externals \<Rightarrow> Block \<Rightarrow> u8 list" where
  "header_hash ext block =
     ShakeSum256 ext 32
       (bytes_of (SoftwareVersion block) @ DecodeString (PrevHash block) @
        DecodeString (MerkleRoot block) @ Uint32toB ext (PackedTarget block) @
        Uint64toB ext (Timestamp block) @ Uint32toB ext (Nonce block))"

text \<open>
  \<open>VerifyBlock\<close>: the boolean it returns and the block as it leaves it; \<open>now\<close> is the
  clock's reading.
\<close>

definition VerifyBlock ::
  "externals \<Rightarrow> u64 \<Rightarrow> Blockchain \<Rightarrow> Block \<Rightarrow> bool \<Rightarrow> (bool \<times> Block) result"
where
  "VerifyBlock ext now c block checkSoftwareVersion =
     (if length (Blocks c) = 1 then Inr (True, block)
      else if checkSoftwareVersion \<and> SoftwareVersion block \<noteq> utilities_SoftwareVersion ext
      then Inr (False, block)
      else if EncodeToString (header_hash ext block) \<noteq> BlockHash block then Inr (False, block)
      else
        (case slice_at (Blocks c) (fst (GetHeight c)) of
           Inl p \<Rightarrow> Inl p
         | Inr tip \<Rightarrow>
             if PrevHash block \<noteq> BlockHash tip then Inr (False, block)
             else if Timestamp block < Timestamp tip \<or> Timestamp block > now
             then Inr (False, block)
             else
               (case CalculatePackedTarget c (word_of_nat (length (Blocks c))) of
                  Inl p \<Rightarrow> Inl p
                | Inr t \<Rightarrow>
                    if PackedTarget block \<noteq> t then Inr (False, block)
                    else if MerkleRoot block \<noteq> GetMerkleRoot ext block then Inr (False, block)
                    else
                      (case VerifyBlock_txs (VerifyTx ext c) (Txs block) 0 of
                         Inl p \<Rightarrow> Inl p
                       | Inr txs \<Rightarrow> Inr (True, block\<lparr>Txs := txs\<rparr>)))))"

section \<open>The claims' own words\<close>

text \<open>
  The reward schedule as the specification writes it: \<open>200_000_000\<close> before the first
  halving, then \<open>(200 / 2^halvings) * 1_000_000\<close> with integer division, on unbounded
  numbers.
\<close>

definition reward_schedule :: "nat \<Rightarrow> nat" where
  "reward_schedule h =
     (let halvings = h div 525600 in
      if halvings = 0 then 200000000 else (200 div 2 ^ halvings) * 1000000)"

text \<open>
  The miner's bound as the claim states it: the 32-byte hash of the candidate's bytes
  followed by the nonce, read as a big-endian unsigned integer, is at most the unpacked
  target.
\<close>

definition meets_target :: "externals \<Rightarrow> u8 list \<Rightarrow> u32 \<Rightarrow> u32 \<Rightarrow> bool" where
  "meets_target ext bytes t n =
     (be_nat (ShakeSum256 ext 32 (bytes @ Uint32toB ext n)) \<le> unat (Unpack t))"

text \<open>
  The balance as the claim states it: the values received, plus the reward of every
  block the key mined that has at least 10 further blocks on top of it.
\<close>

definition spec_balance :: "Blockchain \<Rightarrow> string \<Rightarrow> nat" where
  "spec_balance c pubKey =
     sum_list (map (\<lambda>t. unat (Value t))
       (filter (\<lambda>t. TxTo t = pubKey) (concat (map Txs (Blocks c))))) +
     sum_list (map reward_schedule
       (filter (\<lambda>i. Miner (Blocks c ! i) = pubKey \<and> 10 \<le> length (Blocks c) - 1 - i)
          [0..<length (Blocks c)]))"

text \<open>
  The balance the scan computes, in closed form and in 64-bit arithmetic: the values
  received, plus the reward of every block the key mined whose index plus 10 is below
  the height, that is with more than 10 blocks on top of it.
\<close>

definition received_total :: "Blockchain \<Rightarrow> string \<Rightarrow> u64" where
  "received_total c pubKey =
     sum_list (map Value (filter (\<lambda>t. TxTo t = pubKey) (concat (map Txs (Blocks c)))))"

definition matured_rewards :: "Blockchain \<Rightarrow> string \<Rightarrow> u64" where
  "matured_rewards c pubKey =
     sum_list (map (\<lambda>i. word_of_nat (reward_schedule i))
       (filter (\<lambda>i. Miner (Blocks c ! i) = pubKey \<and> i + 10 < length (Blocks c) - 1)
          [0..<length (Blocks c)]))"

text \<open>A chain of two blocks, the first as \<open>InitBlockchain\<close> fills it.\<close>

definition blk0 :: Block where
  "blk0 = empty_Block\<lparr>PrevHash := ''CoolGenisisBLock'', PackedTarget := 0x1d0fffff\<rparr>"

definition two_blocks :: Blockchain where
  "two_blocks = \<lparr>Blocks = [blk0, empty_Block], height = 0\<rparr>"

definition no_blocks :: Blockchain where
  "no_blocks = \<lparr>Blocks = [], height = 0\<rparr>"

text \<open>
  Concrete collaborators to evaluate with: big-endian encoders, and an output stream
  whose first byte is 3 minus the last input byte and whose other bytes are 0.
\<close>

definition toy_Uint32toB :: "u32 \<Rightarrow> u8 list" where
  "toy_Uint32toB n = [ucast (drop_bit 24 n), ucast (drop_bit 16 n), ucast (drop_bit 8 n), ucast n]"

definition toy_Uint64toB :: "u64 \<Rightarrow> u8 list" where
  "toy_Uint64toB n =
     [ucast (drop_bit 56 n), ucast (drop_bit 48 n), ucast (drop_bit 40 n), ucast (drop_bit 32 n),
      ucast (drop_bit 24 n), ucast (drop_bit 16 n), ucast (drop_bit 8 n), ucast n]"

definition toy_shake :: "u8 list \<Rightarrow> nat \<Rightarrow> u8" where
  "toy_shake data i = (if i = 0 then 3 - last (0 # data) else 0)"

definition toy_ext :: externals where
  "toy_ext =
     \<lparr>utilities_SoftwareVersion = ''1.0'', shake256 = toy_shake,
      Uint32toB = toy_Uint32toB, Uint64toB = toy_Uint64toB,
      ParseBlockToBytes = (\<lambda>b. Some [1]), GetMerkleRoot = (\<lambda>b. []),
      AsBytes = (\<lambda>t. []), ValidateSig = (\<lambda>pubKey txHash signature. True)\<rparr>"

text \<open>Chains of blocks all mined by one key, with no transactions.\<close>

definition mined_by :: "string \<Rightarrow> Block" where
  "mined_by k = empty_Block\<lparr>Miner := k\<rparr>"

definition chain_of :: "nat \<Rightarrow> Block \<Rightarrow> Blockchain" where
  "chain_of n b = \<lparr>Blocks = replicate n b, height = 0\<rparr>"

text \<open>A one-block chain that pays \<open>v\<close> to the key \<open>A\<close>, and a transaction of \<open>A\<close>.\<close>

definition pays_A :: "u64 \<Rightarrow> Blockchain" where
  "pays_A v =
     \<lparr>Blocks = [empty_Block\<lparr>Txs :=
        [\<lparr>TxFrom = ''M'', TxTo = ''A'', Value = v, Fee = 0, TxNonce = 0, Signature = []\<rparr>]\<rparr>],
      height = 0\<rparr>"

definition spend_A :: "u32 \<Rightarrow> LuTx" where
  "spend_A n =
     \<lparr>TxFrom = ''A'', TxTo = ''B'', Value = 10, Fee = 5, TxNonce = n, Signature = []\<rparr>"

text \<open>
  A miner as \<open>new(Miner)\<close> makes it, the same collaborators with an output stream of
  bytes \<open>0xFF\<close>, and a block with two transactions of \<open>A\<close> that carry wrong nonces.
\<close>

definition idle_Miner :: Miner where
  "idle_Miner =
     \<lparr>inputBlockBytes = [], packedTarget = 0, hashData = [], currentHash = [],
      unpackedTarget = []\<rparr>"

definition ff_ext :: externals where
  "ff_ext = toy_ext\<lparr>shake256 := (\<lambda>data i. 0xFF)\<rparr>"

definition zero_hash_hex :: string where
  "zero_hash_hex = ''0000000000000000000000000000000000000000000000000000000000000000''"

definition two_bad_txs :: Block where
  "two_bad_txs =
     empty_Block\<lparr>SoftwareVersion := ''1.0'', Timestamp := 5, Nonce := 3,
       BlockHash := zero_hash_hex, Txs := [spend_A 7, spend_A 8]\<rparr>"

section \<open>Reward schedule\<close>

lemma GetBlockReward_first_year:
  "h div 525600 = 0 \<Longrightarrow> GetBlockReward h = Inr 200000000"
  by (simp add: GetBlockReward_def)

text \<open>
  C6. The claim gives reward 0 to every height from \<open>525600 * 8\<close> on. At height
  \<open>525600 * 64 = 33638400\<close> the code has 64 halvings, shifts \<open>2\<close> left by 63 to
  \<open>0\<close> in 64 bits and divides 200 by it: the call panics instead of returning 0.
\<close>

theorem GetBlockReward_panics_at_64_halvings:
  "GetBlockReward 33638400 = Inl DivideByZero"
  by (simp add: GetBlockReward_def)

section \<open>Height and block lookup\<close>

lemma GetHeight_nonempty:
  assumes "Blocks b \<noteq> []" "length (Blocks b) < 2 ^ 64"
  shows "unat (fst (GetHeight b)) = length (Blocks b) - 1"
proof -
  obtain x xs where c: "Blocks b = x # xs"
    using assms(1) by (cases "Blocks b") auto
  have "fst (GetHeight b) = (word_of_nat (length xs) :: u64)"
    by (simp add: GetHeight_def Let_def c)
  moreover have "length xs < 2 ^ 64" using assms(2) c by simp
  ultimately show ?thesis by (simp add: unat_of_nat c)
qed

lemma GetHeight_empty: "Blocks b = [] \<Longrightarrow> fst (GetHeight b) = - 1"
  by (simp add: GetHeight_def Let_def)

lemma Blocks_GetHeight: "Blocks (snd (GetHeight b)) = Blocks b"
  by (simp add: GetHeight_def Let_def)

lemma two_blocks_height: "fst (GetHeight two_blocks) = 1"
  by (simp add: GetHeight_def two_blocks_def)

lemma two_blocks_Blocks: "Blocks two_blocks = [blk0, empty_Block]"
  by (simp add: two_blocks_def)

lemma no_blocks_Blocks: "Blocks no_blocks = []"
  by (simp add: no_blocks_def)

lemma u64_2_not_le_1: "\<not> (2 :: u64) \<le> 1"
  by (simp add: word_le_def)

text \<open>
  C10. On a chain with at least one block (a Go slice has fewer than \<open>2 ^ 64\<close>
  elements) the height is \<open>length - 1\<close>, and \<open>GetBlock\<close> returns the stored block
  and \<open>true\<close> for an index up to the height, the empty block and \<open>false\<close> beyond it.
  On an empty chain the height is the largest \<open>uint\<close>, no index is above it, and the
  read of the empty slice panics.
\<close>

theorem GetBlock_bounds:
  "(Blocks b \<noteq> [] \<and> length (Blocks b) < 2 ^ 64 \<longrightarrow>
      unat (fst (GetHeight b)) = length (Blocks b) - 1 \<and>
      fst (GetBlock b n) =
        (if n \<le> fst (GetHeight b) then Inr (Blocks b ! unat n, True)
         else Inr (empty_Block, False))) \<and>
   (Blocks b = [] \<longrightarrow>
      \<not> n > fst (GetHeight b) \<and> fst (GetBlock b n) = Inl IndexOutOfRange)"
proof (intro conjI impI)
  assume a: "Blocks b \<noteq> [] \<and> length (Blocks b) < 2 ^ 64"
  then show h: "unat (fst (GetHeight b)) = length (Blocks b) - 1"
    using GetHeight_nonempty by blast
  show "fst (GetBlock b n) =
        (if n \<le> fst (GetHeight b) then Inr (Blocks b ! unat n, True)
         else Inr (empty_Block, False))"
  proof (cases "n \<le> fst (GetHeight b)")
    case True
    then have "unat n \<le> unat (fst (GetHeight b))"
      by (rule word_le_nat_alt [THEN iffD1])
    then have "unat n \<le> length (Blocks b) - 1" using h by simp
    then have "unat n < length (Blocks b)" using a by (cases "Blocks b") auto
    moreover have "\<not> fst (GetHeight b) < n" using True by simp
    ultimately show ?thesis using True
      by (simp add: GetBlock_def slice_at_def split_beta Blocks_GetHeight Let_def)
  next
    case False
    then show ?thesis by (simp add: GetBlock_def split_beta Let_def not_le)
  qed
next
  assume e: "Blocks b = []"
  then show "\<not> n > fst (GetHeight b)" by (simp add: GetHeight_empty)
  then show "fst (GetBlock b n) = Inl IndexOutOfRange" using e
    by (simp add: GetBlock_def slice_at_def split_beta Blocks_GetHeight Let_def)
qed

theorem GetBlock_bounds_witness:
  "fst (GetBlock two_blocks 0) = Inr (blk0, True) \<and>
   fst (GetBlock two_blocks 2) = Inr (empty_Block, False) \<and>
   fst (GetBlock no_blocks 0) = Inl IndexOutOfRange"
proof -
  have ne: "Blocks two_blocks \<noteq> [] \<and> length (Blocks two_blocks) < 2 ^ 64"
    by (simp add: two_blocks_Blocks)
  note t0 = GetBlock_bounds [of two_blocks 0, THEN conjunct1, THEN mp, OF ne, THEN conjunct2]
  note t2 = GetBlock_bounds [of two_blocks 2, THEN conjunct1, THEN mp, OF ne, THEN conjunct2]
  note e0 = GetBlock_bounds [of no_blocks 0, THEN conjunct2, THEN mp, OF no_blocks_Blocks,
      THEN conjunct2]
  have a: "fst (GetBlock two_blocks 0) = Inr (blk0, True)"
    unfolding t0 by (simp add: two_blocks_height two_blocks_Blocks)
  have b: "fst (GetBlock two_blocks 2) = Inr (empty_Block, False)"
    unfolding t2 by (simp add: two_blocks_height u64_2_not_le_1)
  from a b e0 show ?thesis by blast
qed

lemma count_step:
  "(if P then n + 1 else n) + (of_nat m :: u32) = n + of_nat (if P then Suc m else m)"
  by (cases P) (simp_all add: add.assoc)

lemma ScanChainForNonce_txs_eq:
  "ScanChainForNonce_txs k txs i n =
     n + of_nat (length (filter (\<lambda>t. TxFrom t = k) (drop i txs)))"
proof (induction k txs i n rule: ScanChainForNonce_txs.induct)
  case (1 k txs i n)
  show ?case
  proof (cases "i < length txs")
    case True
    then have d: "drop i txs = txs ! i # drop (Suc i) txs"
      by (simp add: Cons_nth_drop_Suc)
    have l: "length (filter (\<lambda>t. TxFrom t = k) (drop i txs)) =
       (if TxFrom (txs ! i) = k then Suc (length (filter (\<lambda>t. TxFrom t = k) (drop (i + 1) txs)))
        else length (filter (\<lambda>t. TxFrom t = k) (drop (i + 1) txs)))"
      unfolding d by simp
    have "ScanChainForNonce_txs k txs i n =
            ScanChainForNonce_txs k txs (i + 1)
              (if TxFrom (txs ! i) = k then n + 1 else n)"
      using True by (subst ScanChainForNonce_txs.simps) simp
    also have "\<dots> = (if TxFrom (txs ! i) = k then n + 1 else n) +
        of_nat (length (filter (\<lambda>t. TxFrom t = k) (drop (i + 1) txs)))"
      using True by (rule "1.IH")
    also have "\<dots> = n + of_nat (length (filter (\<lambda>t. TxFrom t = k) (drop i txs)))"
      unfolding l by (rule count_step)
    finally show ?thesis .
  next
    case False
    then show ?thesis by (subst ScanChainForNonce_txs.simps) simp
  qed
qed

lemma ScanChainForNonce_blocks_eq:
  "ScanChainForNonce_blocks c k i n =
     n + of_nat (length (filter (\<lambda>t. TxFrom t = k) (concat (map Txs (drop i (Blocks c))))))"
proof (induction c k i n rule: ScanChainForNonce_blocks.induct)
  case (1 c k i n)
  show ?case
  proof (cases "i < length (Blocks c)")
    case True
    then have d: "drop i (Blocks c) = Blocks c ! i # drop (Suc i) (Blocks c)"
      by (simp add: Cons_nth_drop_Suc)
    have l: "length (filter (\<lambda>t. TxFrom t = k) (concat (map Txs (drop i (Blocks c))))) =
        length (filter (\<lambda>t. TxFrom t = k) (Txs (Blocks c ! i))) +
        length (filter (\<lambda>t. TxFrom t = k) (concat (map Txs (drop (i + 1) (Blocks c)))))"
      unfolding d by simp
    have "ScanChainForNonce_blocks c k i n =
            ScanChainForNonce_blocks c k (i + 1)
              (ScanChainForNonce_txs k (Txs (Blocks c ! i)) 0 n)"
      using True by (subst ScanChainForNonce_blocks.simps) simp
    also have "\<dots> = ScanChainForNonce_txs k (Txs (Blocks c ! i)) 0 n +
        of_nat (length (filter (\<lambda>t. TxFrom t = k) (concat (map Txs (drop (i + 1) (Blocks c))))))"
      using True by (rule "1.IH")
    also have "\<dots> = n + of_nat (length (filter (\<lambda>t. TxFrom t = k)
        (concat (map Txs (drop i (Blocks c))))))"
      unfolding l ScanChainForNonce_txs_eq by (simp only: drop_0 of_nat_add add.assoc)
    finally show ?thesis .
  next
    case False
    then show ?thesis by (subst ScanChainForNonce_blocks.simps) simp
  qed
qed

lemma ScanChainForNonce_eq:
  "ScanChainForNonce c k =
     of_nat (length (filter (\<lambda>t. TxFrom t = k) (concat (map Txs (Blocks c)))))"
  unfolding ScanChainForNonce_def ScanChainForNonce_blocks_eq by (simp only: drop_0 add_0)

lemma VerifyTx_wrong_nonce:
  assumes "TxNonce tx \<noteq> ScanChainForNonce c (TxFrom tx)"
    and "ScanChainForBalance c (TxFrom tx) = Inr bal"
  shows "VerifyTx ext c tx = Inr False"
  using assms by (simp add: VerifyTx_def)

lemma ScanChainForBalance_txs_eq:
  "ScanChainForBalance_txs k txs i bal =
     bal + sum_list (map Value (filter (\<lambda>t. TxTo t = k) (drop i txs)))"
proof (induction k txs i bal rule: ScanChainForBalance_txs.induct)
  case (1 k txs i bal)
  show ?case
  proof (cases "i < length txs")
    case True
    then have d: "drop i txs = txs ! i # drop (Suc i) txs"
      by (simp add: Cons_nth_drop_Suc)
    have "ScanChainForBalance_txs k txs i bal =
            ScanChainForBalance_txs k txs (i + 1)
              (if TxTo (txs ! i) = k then bal + Value (txs ! i) else bal)"
      using True by (subst ScanChainForBalance_txs.simps) simp
    also have "\<dots> = (if TxTo (txs ! i) = k then bal + Value (txs ! i) else bal) +
        sum_list (map Value (filter (\<lambda>t. TxTo t = k) (drop (i + 1) txs)))"
      using True by (rule "1.IH")
    also have "\<dots> = bal + sum_list (map Value (filter (\<lambda>t. TxTo t = k) (drop i txs)))"
      by (simp add: d)
    finally show ?thesis .
  next
    case False
    then show ?thesis by (subst ScanChainForBalance_txs.simps) simp
  qed
qed

lemma GetHeight_sint:
  assumes "Blocks c \<noteq> []" "length (Blocks c) < 2 ^ 63"
  shows "sint (fst (GetHeight c)) = int (length (Blocks c)) - 1"
proof -
  have s: "sint (word_of_int x :: u64) = signed_take_bit 63 x" for x
    by (simp only: sint_sbintrunc') simp
  have "fst (GetHeight c) = word_of_int (int (length (Blocks c)) - 1)"
    by (simp only: GetHeight_def Let_def fst_conv)
  then have "sint (fst (GetHeight c)) = signed_take_bit 63 (int (length (Blocks c)) - 1)"
    by (simp only: s)
  also have "\<dots> = int (length (Blocks c)) - 1"
    using assms(2) by (intro signed_take_bit_int_eq_self) auto
  finally show ?thesis .
qed

lemma unat_u32_of_nat: "h < 2 ^ 32 \<Longrightarrow> unat (word_of_nat h :: u32) = h"
  by (simp add: unat_of_nat)

lemma unat_u64_of_nat: "h < 2 ^ 64 \<Longrightarrow> unat (word_of_nat h :: u64) = h"
  by (simp add: unat_of_nat)

lemma halvings_unat:
  assumes "h < 2 ^ 32"
  shows "unat ((word_of_nat h :: u32) div 525600) = h div 525600"
  using assms by (simp add: unat_div unat_u32_of_nat)

lemma push_bit_2_u64:
  assumes "0 < q" "q < 64"
  shows "push_bit (q - 1) (2 :: u64) = word_of_nat (2 ^ q)"
    and "unat (push_bit (q - 1) (2 :: u64)) = 2 ^ q"
proof -
  have "(2 :: u64) * 2 ^ (q - 1) = 2 ^ Suc (q - 1)" by simp
  also have "Suc (q - 1) = q" using assms(1) by simp
  finally have p: "push_bit (q - 1) (2 :: u64) = 2 ^ q"
    by (simp only: push_bit_eq_mult)
  show e: "push_bit (q - 1) (2 :: u64) = word_of_nat (2 ^ q)"
    unfolding p by simp
  have "(2 :: nat) ^ q < 2 ^ 64" using assms(2) by (intro power_strict_increasing) simp_all
  then show "unat (push_bit (q - 1) (2 :: u64)) = 2 ^ q"
    unfolding e by (rule unat_u64_of_nat)
qed

lemma GetBlockReward_schedule:
  assumes "h < 33638400"
  shows "GetBlockReward (word_of_nat h) = Inr (word_of_nat (reward_schedule h))"
proof -
  define q where "q = h div 525600"
  define w :: u32 where "w = word_of_nat h div 525600"
  have h32: "h < 2 ^ 32" using assms by simp
  have uw: "unat w = q" unfolding w_def q_def using h32 by (rule halvings_unat)
  have q64: "q < 64" unfolding q_def using assms by simp
  show ?thesis
  proof (cases "q = 0")
    case True
    then have "w = 0" using uw by (simp add: unsigned_eq_0_iff)
    then have "GetBlockReward (word_of_nat h) = Inr 200000000"
      unfolding w_def by (simp add: GetBlockReward_def)
    moreover have "reward_schedule h = 200000000"
      using True unfolding q_def by (simp add: reward_schedule_def)
    ultimately show ?thesis by simp
  next
    case False
    then have q0: "0 < q" by simp
    have w0: "w \<noteq> 0" using uw False by (auto simp: unsigned_eq_0_iff)
    have um: "unat (w - 1) = q - 1" using w0 uw by (simp add: unat_minus_one)
    define d :: u64 where "d = push_bit (unat (w - 1)) 2"
    have ud: "unat d = 2 ^ q" unfolding d_def um using q0 q64 by (rule push_bit_2_u64(2))
    then have d0: "d \<noteq> 0" by (auto simp: unsigned_eq_0_iff)
    have u: "unat (200 div d) = 200 div 2 ^ q" by (simp add: unat_div ud)
    have "200 div d = word_of_nat (unat (200 div d))" by simp
    then have dv: "200 div d = word_of_nat (200 div 2 ^ q)"
      by (simp only: u)
    have "GetBlockReward (word_of_nat h) = Inr ((200 div d) * 1000000)"
      using w0 d0 unfolding w_def d_def by (simp add: GetBlockReward_def Let_def)
    moreover have "reward_schedule h = (200 div 2 ^ q) * 1000000"
      using False unfolding q_def by (simp add: reward_schedule_def)
    ultimately show ?thesis by (simp add: dv)
  qed
qed

lemma maturity_test:
  assumes "i < length (Blocks c)" "length (Blocks c) < 2 ^ 63"
  shows "(int i + 10 < sint (fst (GetHeight c))) = (i + 10 < length (Blocks c) - 1)"
proof -
  have "Blocks c \<noteq> []" using assms(1) by auto
  then have "sint (fst (GetHeight c)) = int (length (Blocks c)) - 1"
    using assms(2) by (rule GetHeight_sint)
  then show ?thesis using assms(1) by auto
qed

lemma u64_sum_shuffle:
  "(a + r + t) + x + y = a + (t + x) + ((r :: u64) + y)"
  by (simp only: ac_simps)

lemma u64_sum_assoc:
  "(a + t) + x + y = a + (t + x) + (y :: u64)"
  by (simp only: ac_simps)

lemma ScanChainForBalance_blocks_eq:
  assumes "length (Blocks c) \<le> 33638400"
  shows "ScanChainForBalance_blocks c k i bal =
    Inr (bal +
      sum_list (map Value (filter (\<lambda>t. TxTo t = k) (concat (map Txs (drop i (Blocks c)))))) +
      sum_list (map (\<lambda>j. word_of_nat (reward_schedule j))
        (filter (\<lambda>j. Miner (Blocks c ! j) = k \<and> j + 10 < length (Blocks c) - 1)
           [i..<length (Blocks c)])))"
proof (induction "length (Blocks c) - i" arbitrary: i bal)
  case 0
  then have "\<not> i < length (Blocks c)" by simp
  then show ?case by (subst ScanChainForBalance_blocks.simps) simp
next
  case (Suc n)
  then have lt: "i < length (Blocks c)" by simp
  have n: "n = length (Blocks c) - (i + 1)" using Suc(2) by simp
  have L63: "length (Blocks c) < 2 ^ 63" using assms by simp
  have i_ok: "i < 33638400" using lt assms by simp
  note IH = Suc(1) [OF n]
  define T where "T = sum_list (map Value (filter (\<lambda>t. TxTo t = k) (Txs (Blocks c ! i))))"
  define A' where "A' = sum_list (map Value (filter (\<lambda>t. TxTo t = k)
      (concat (map Txs (drop (i + 1) (Blocks c))))))"
  define R' where "R' = sum_list (map (\<lambda>j. word_of_nat (reward_schedule j) :: u64)
        (filter (\<lambda>j. Miner (Blocks c ! j) = k \<and> j + 10 < length (Blocks c) - 1)
           [i + 1..<length (Blocks c)]))"
  have d: "drop i (Blocks c) = Blocks c ! i # drop (i + 1) (Blocks c)"
    using lt by (simp add: Cons_nth_drop_Suc)
  have u: "[i..<length (Blocks c)] = i # [i + 1..<length (Blocks c)]"
    using lt by (simp add: upt_conv_Cons)
  have A: "sum_list (map Value (filter (\<lambda>t. TxTo t = k)
      (concat (map Txs (drop i (Blocks c)))))) = T + A'"
    unfolding d T_def A'_def by simp
  have X: "ScanChainForBalance_txs k (Txs (Blocks c ! i)) 0 b = b + T" for b
    unfolding ScanChainForBalance_txs_eq T_def by simp
  show ?case
  proof (cases "Miner (Blocks c ! i) = k \<and> i + 10 < length (Blocks c) - 1")
    case True
    then have t: "Miner (Blocks c ! i) = k \<and> int i + 10 < sint (fst (GetHeight c))"
      using maturity_test [OF lt L63] by simp
    have R: "sum_list (map (\<lambda>j. word_of_nat (reward_schedule j) :: u64)
        (filter (\<lambda>j. Miner (Blocks c ! j) = k \<and> j + 10 < length (Blocks c) - 1)
           [i..<length (Blocks c)])) = word_of_nat (reward_schedule i) + R'"
      unfolding u R'_def using True by simp
    have "ScanChainForBalance_blocks c k i bal =
        ScanChainForBalance_blocks c k (i + 1)
          (ScanChainForBalance_txs k (Txs (Blocks c ! i)) 0
             (bal + word_of_nat (reward_schedule i)))"
      using lt t by (subst ScanChainForBalance_blocks.simps)
        (simp add: GetBlockReward_schedule [OF i_ok])
    also have "\<dots> = Inr (bal + word_of_nat (reward_schedule i) + T + A' + R')"
      unfolding IH X A'_def R'_def by (rule refl)
    finally show ?thesis unfolding A R by (simp only: u64_sum_shuffle)
  next
    case False
    then have t: "\<not> (Miner (Blocks c ! i) = k \<and> int i + 10 < sint (fst (GetHeight c)))"
      using maturity_test [OF lt L63] by simp
    have R: "sum_list (map (\<lambda>j. word_of_nat (reward_schedule j) :: u64)
        (filter (\<lambda>j. Miner (Blocks c ! j) = k \<and> j + 10 < length (Blocks c) - 1)
           [i..<length (Blocks c)])) = R'"
      unfolding u R'_def by (simp only: filter.simps False if_False)
    have "ScanChainForBalance_blocks c k i bal =
        ScanChainForBalance_blocks c k (i + 1)
          (ScanChainForBalance_txs k (Txs (Blocks c ! i)) 0 bal)"
      by (subst ScanChainForBalance_blocks.simps) (simp only: lt t if_True if_False)
    also have "\<dots> = Inr (bal + T + A' + R')"
      unfolding IH X A'_def R'_def by (rule refl)
    finally show ?thesis unfolding A R by (simp only: u64_sum_assoc)
  qed
qed

lemma ScanChainForBalance_closed:
  assumes "length (Blocks c) \<le> 33638400"
  shows "ScanChainForBalance c k = Inr (received_total c k + matured_rewards c k)"
  unfolding ScanChainForBalance_def received_total_def matured_rewards_def
    ScanChainForBalance_blocks_eq [OF assms]
  by (simp only: drop_0 add_0)

lemma chain_of_Blocks: "Blocks (chain_of n b) = replicate n b"
  by (simp add: chain_of_def)

lemma Txs_mined_by: "Txs (mined_by k) = []"
  by (simp add: mined_by_def empty_Block_def)

lemma Miner_mined_by: "Miner (mined_by k) = k"
  by (simp add: mined_by_def)

lemma received_total_mined: "received_total (chain_of n (mined_by k)) k' = 0"
  by (simp add: received_total_def chain_of_Blocks Txs_mined_by)

lemma upt_11: "[0..<11] = [0, 1, 2, 3, 4, 5, 6, 7, 8, 9, 10 :: nat]"
  by (simp add: upt_rec)

lemma upt_12: "[0..<12] = [0, 1, 2, 3, 4, 5, 6, 7, 8, 9, 10, 11 :: nat]"
  by (simp add: upt_rec)

lemma matured_rewards_11: "matured_rewards (chain_of 11 (mined_by ''K'')) ''K'' = 0"
  by (simp add: matured_rewards_def chain_of_Blocks upt_11)

lemma matured_rewards_12: "matured_rewards (chain_of 12 (mined_by ''K'')) ''K'' = 200000000"
  by (simp add: matured_rewards_def chain_of_Blocks upt_12 Miner_mined_by reward_schedule_def)

lemma spec_balance_11: "spec_balance (chain_of 11 (mined_by ''K'')) ''K'' = 200000000"
  by (simp add: spec_balance_def chain_of_Blocks upt_11 Miner_mined_by Txs_mined_by
      reward_schedule_def)

text \<open>
  C4, as stated. On a chain of 11 blocks all mined by \<open>K\<close>, block 0 has 10 further
  blocks on top of it, so the claim counts its reward of \<open>200000000\<close>; the scan tests
  \<open>index + 10 < height\<close>, which is \<open>10 < 10\<close> for block 0, and returns 0.
\<close>

theorem ScanChainForBalance_ten_on_top:
  "ScanChainForBalance (chain_of 11 (mined_by ''K'')) ''K'' = Inr 0 \<and>
   spec_balance (chain_of 11 (mined_by ''K'')) ''K'' = 200000000"
proof -
  have "length (Blocks (chain_of 11 (mined_by ''K''))) \<le> 33638400"
    by (simp add: chain_of_Blocks)
  then have "ScanChainForBalance (chain_of 11 (mined_by ''K'')) ''K'' =
      Inr (received_total (chain_of 11 (mined_by ''K'')) ''K'' +
           matured_rewards (chain_of 11 (mined_by ''K'')) ''K'')"
    by (rule ScanChainForBalance_closed)
  then show ?thesis
    by (simp add: received_total_mined matured_rewards_11 spec_balance_11)
qed

text \<open>
  C4, amended. On every ledger of at most \<open>525600 * 64 = 33638400\<close> blocks the scan
  returns, in unsigned 64-bit arithmetic, the sum of the values of the transactions the
  key received plus the reward of every block the key mined whose index plus 10 is
  below the height (more than 10 further blocks on top); a block with 10 or fewer
  blocks on top contributes no reward.
\<close>

theorem ScanChainForBalance_matured:
  "length (Blocks c) \<le> 33638400 \<Longrightarrow>
   ScanChainForBalance c k = Inr (received_total c k + matured_rewards c k)"
  by (rule ScanChainForBalance_closed)

theorem ScanChainForBalance_matured_witness:
  "ScanChainForBalance (chain_of 12 (mined_by ''K'')) ''K'' = Inr 200000000"
proof -
  have "length (Blocks (chain_of 12 (mined_by ''K''))) \<le> 33638400"
    by (simp add: chain_of_Blocks)
  then show ?thesis
    using ScanChainForBalance_matured [of "chain_of 12 (mined_by ''K'')" "''K''"]
    by (simp add: received_total_mined matured_rewards_12)
qed

lemma ScanChainForBalance_pays_A: "ScanChainForBalance (pays_A v) ''A'' = Inr v"
proof -
  have "length (Blocks (pays_A v)) \<le> 33638400" by (simp add: pays_A_def)
  then have "ScanChainForBalance (pays_A v) ''A'' =
      Inr (received_total (pays_A v) ''A'' + matured_rewards (pays_A v) ''A'')"
    by (rule ScanChainForBalance_closed)
  moreover have "received_total (pays_A v) ''A'' = v"
    by (simp add: received_total_def pays_A_def)
  moreover have "matured_rewards (pays_A v) ''A'' = 0"
    by (simp add: matured_rewards_def pays_A_def)
  ultimately show ?thesis by simp
qed

lemma ScanChainForNonce_pays_A: "ScanChainForNonce (pays_A v) ''A'' = 0"
  by (simp add: ScanChainForNonce_eq pays_A_def)

lemma u64_85_pos: "(0 :: u64) < 100 - (10 + 5)"
  by (simp add: word_less_def)

lemma u64_0_not_pos: "\<not> (0 :: u64) < 15 - (10 + 5)"
  by simp

text \<open>
  C1. The sender \<open>A\<close> has received 100 and never sent; the transaction moves 10 with fee
  5 and carries the right nonce 0 and a signature the collaborator accepts. The balance
  covers \<open>value + fee\<close>, yet \<open>VerifyTx\<close> returns false: \<open>100 - 15 > 0\<close> holds. With a
  balance of exactly 15 the same transaction is accepted.
\<close>

theorem VerifyTx_rejects_sufficient_balance:
  "ScanChainForBalance (pays_A 100) ''A'' = Inr 100 \<and>
   ScanChainForNonce (pays_A 100) ''A'' = 0 \<and>
   VerifyTx toy_ext (pays_A 100) (spend_A 0) = Inr False \<and>
   VerifyTx toy_ext (pays_A 15) (spend_A 0) = Inr True"
proof -
  have f: "VerifyTx toy_ext (pays_A 100) (spend_A 0) = Inr False"
    unfolding VerifyTx_def
    by (simp add: spend_A_def ScanChainForBalance_pays_A u64_85_pos)
  have t: "VerifyTx toy_ext (pays_A 15) (spend_A 0) = Inr True"
    unfolding VerifyTx_def
    by (simp add: spend_A_def ScanChainForBalance_pays_A ScanChainForNonce_pays_A toy_ext_def)
  show ?thesis using f t by (simp add: ScanChainForBalance_pays_A ScanChainForNonce_pays_A)
qed

lemma GetBlockReward_panic_kind: "GetBlockReward h = Inl p \<Longrightarrow> p = DivideByZero"
  by (simp add: GetBlockReward_def Let_def split: if_splits)

lemma GetBlockReward_33638400: "GetBlockReward 33638400 = Inl DivideByZero"
  by (simp add: GetBlockReward_def)

lemma ScanChainForBalance_blocks_panics:
  assumes j: "j < length (Blocks c)"
    and m: "Miner (Blocks c ! j) = k \<and> int j + 10 < sint (fst (GetHeight c))"
    and p: "GetBlockReward (word_of_nat j) = Inl DivideByZero"
  shows "i \<le> j \<Longrightarrow> ScanChainForBalance_blocks c k i bal = Inl DivideByZero"
proof (induction "j - i" arbitrary: i bal)
  case 0
  then have "i = j" by simp
  then show ?case
    using j m p by (subst ScanChainForBalance_blocks.simps) simp
next
  case (Suc n)
  then have lt: "i < length (Blocks c)" and n: "n = j - (i + 1)" and le: "i + 1 \<le> j"
    using j by simp_all
  note IH = Suc(1) [OF n le]
  show ?case
  proof (cases "Miner (Blocks c ! i) = k \<and> int i + 10 < sint (fst (GetHeight c))")
    case True
    show ?thesis
    proof (cases "GetBlockReward (word_of_nat i)")
      case (Inl q)
      then have "GetBlockReward (word_of_nat i) = Inl DivideByZero"
        using GetBlockReward_panic_kind by blast
      then show ?thesis
        by (subst ScanChainForBalance_blocks.simps) (simp only: lt True if_True sum.case simp_thms)
    next
      case (Inr r)
      then show ?thesis
        by (subst ScanChainForBalance_blocks.simps) (simp only: lt True if_True sum.case IH simp_thms)
    qed
  next
    case False
    then show ?thesis
      by (subst ScanChainForBalance_blocks.simps) (simp only: lt False if_True if_False IH simp_thms)
  qed
qed

lemma ScanChainForBalance_long_chain:
  "ScanChainForBalance (chain_of 33638412 (mined_by ''A'')) ''A'' = Inl DivideByZero"
proof -
  let ?c = "chain_of 33638412 (mined_by ''A'')"
  have j: "33638400 < length (Blocks ?c)" by (simp add: chain_of_Blocks)
  have "Blocks ?c \<noteq> []" "length (Blocks ?c) < 2 ^ 63" by (simp_all add: chain_of_Blocks)
  then have "sint (fst (GetHeight ?c)) = int (length (Blocks ?c)) - 1"
    by (rule GetHeight_sint)
  then have h: "sint (fst (GetHeight ?c)) = 33638411" by (simp add: chain_of_Blocks)
  have m: "Miner (Blocks ?c ! 33638400) = ''A'' \<and> int 33638400 + 10 < sint (fst (GetHeight ?c))"
    unfolding h by (simp add: chain_of_Blocks Miner_mined_by)
  have p: "GetBlockReward (word_of_nat 33638400) = Inl DivideByZero"
    using GetBlockReward_33638400 by simp
  show ?thesis
    unfolding ScanChainForBalance_def
    by (rule ScanChainForBalance_blocks_panics [OF j m p]) simp
qed

lemma ScanChainForNonce_mined: "ScanChainForNonce (chain_of n (mined_by k)) k' = 0"
  by (simp add: ScanChainForNonce_eq chain_of_Blocks Txs_mined_by)

text \<open>
  C9. On a ledger of 33638412 blocks mined by the sender \<open>A\<close>, a transaction of \<open>A\<close>
  with nonce 7 (the derived count is 0) does not make \<open>VerifyTx\<close> return false: the
  balance scan, which runs first, asks for the reward of the matured block 33638400 and
  panics there.
\<close>

theorem VerifyTx_wrong_nonce_panics:
  "TxFrom (spend_A 7) = ''A'' \<and>
   ScanChainForNonce (chain_of 33638412 (mined_by ''A'')) ''A'' = 0 \<and>
   TxNonce (spend_A 7) = 7 \<and>
   VerifyTx toy_ext (chain_of 33638412 (mined_by ''A'')) (spend_A 7) = Inl DivideByZero"
proof -
  have "VerifyTx toy_ext (chain_of 33638412 (mined_by ''A'')) (spend_A 7) = Inl DivideByZero"
    unfolding VerifyTx_def by (simp add: spend_A_def ScanChainForBalance_long_chain)
  then show ?thesis by (simp add: ScanChainForNonce_mined spend_A_def)
qed

lemma VerifyTx_wrong_nonce_returns:
  assumes "length (Blocks c) \<le> 33638400"
    and "TxNonce tx \<noteq> ScanChainForNonce c (TxFrom tx)"
  shows "VerifyTx ext c tx = Inr False"
  unfolding VerifyTx_def ScanChainForBalance_closed [OF assms(1)] using assms(2) by simp

lemma length_ShakeSum256: "length (ShakeSum256 ext n d) = n"
  by (simp add: ShakeSum256_def)

lemma length_be_bytes: "length (be_bytes k v) = k"
  by (induction k arbitrary: v) simp_all

lemma be_nat_bound: "be_nat xs < 256 ^ length xs"
proof (induction xs)
  case Nil
  show ?case by simp
next
  case (Cons x xs)
  define P :: nat where "P = 256 ^ length xs"
  have "unat x < 256" using unsigned_less [of x] by simp
  then have "unat x \<le> 255" by simp
  then have a: "unat x * P \<le> 255 * P" by (rule mult_le_mono1)
  have b: "be_nat xs < P" using Cons by (simp add: P_def)
  have "unat x * P + be_nat xs < 256 * P" using a b by linarith
  then show ?case by (simp add: P_def)
qed

lemma u8_of_nat_mod: "unat (word_of_nat n :: u8) = n mod 256"
  by (simp add: unat_of_nat)

lemma be_nat_be_bytes: "be_nat (be_bytes k v) = v mod 256 ^ k"
proof (induction k arbitrary: v)
  case 0
  show ?case by simp
next
  case (Suc k)
  define P :: nat where "P = 256 ^ k"
  have "be_nat (be_bytes (Suc k) v) =
      unat (word_of_nat (v div P) :: u8) * 256 ^ length (be_bytes k (v mod P)) +
      be_nat (be_bytes k (v mod P))"
    by (simp add: P_def)
  also have "\<dots> = (v div P mod 256) * P + v mod P mod P"
    by (simp only: u8_of_nat_mod length_be_bytes Suc P_def)
  also have "\<dots> = P * (v div P mod 256) + v mod P"
    by (simp add: mult.commute)
  also have "\<dots> = v mod (P * 256)"
    by (rule mod_mult2_eq [symmetric])
  also have "P * 256 = 256 ^ Suc k" by (simp add: P_def)
  finally show ?case .
qed

lemma be_nat_UnpackAsBytes: "be_nat (UnpackAsBytes t) = unat (Unpack t)"
proof -
  have "unat (Unpack t) < 2 ^ 256" using unsigned_less [of "Unpack t"] by simp
  moreover have "(256 :: nat) ^ 32 = 2 ^ 256" by simp
  ultimately show ?thesis by (simp add: UnpackAsBytes_def be_nat_be_bytes)
qed

lemma length_UnpackAsBytes: "length (UnpackAsBytes t) = 32"
  by (simp add: UnpackAsBytes_def length_be_bytes)

lemma lex_step:
  fixes a b r s P :: nat
  assumes "a < b" "r < P"
  shows "a * P + r < b * P + s"
proof -
  have "Suc a * P \<le> b * P" using assms(1) by (intro mult_le_mono1) simp
  moreover have "Suc a * P = P + a * P" by simp
  ultimately show ?thesis using assms(2) by linarith
qed

lemma Compare_be_nat:
  assumes "length xs = length ys"
  shows "Compare xs ys =
    (if be_nat xs < be_nat ys then - 1 else if be_nat ys < be_nat xs then 1 else 0)"
  using assms
proof (induction xs ys rule: list_induct2)
  case Nil
  show ?case by simp
next
  case (Cons x xs y ys)
  define P :: nat where "P = 256 ^ length ys"
  have bx: "be_nat (x # xs) = unat x * P + be_nat xs" by (simp add: P_def Cons.hyps)
  have bY: "be_nat (y # ys) = unat y * P + be_nat ys" by (simp add: P_def)
  have rx: "be_nat xs < P" using be_nat_bound [of xs] by (simp add: P_def Cons.hyps)
  have ry: "be_nat ys < P" using be_nat_bound [of ys] by (simp add: P_def)
  consider (lt) "x < y" | (gt) "y < x" | (eq) "x = y" by (metis linorder_cases)
  then show ?case
  proof cases
    case lt
    then have "unat x < unat y" by (rule word_less_nat_alt [THEN iffD1])
    then have "be_nat (x # xs) < be_nat (y # ys)"
      unfolding bx bY using rx by (rule lex_step)
    then show ?thesis using lt by simp
  next
    case gt
    then have ngt: "\<not> x < y" by simp
    from gt have "unat y < unat x" by (rule word_less_nat_alt [THEN iffD1])
    then have "be_nat (y # ys) < be_nat (x # xs)"
      unfolding bx bY using ry by (rule lex_step)
    then show ?thesis using gt ngt by simp
  next
    case eq
    have bx2: "be_nat (x # xs) = unat y * P + be_nat xs" using bx eq by simp
    have "Compare (x # xs) (y # ys) = Compare xs ys" using eq by simp
    moreover have "(be_nat (x # xs) < be_nat (y # ys)) = (be_nat xs < be_nat ys)"
      unfolding bx2 bY by simp
    moreover have "(be_nat (y # ys) < be_nat (x # xs)) = (be_nat ys < be_nat xs)"
      unfolding bx2 bY by simp
    ultimately show ?thesis by (simp only: Cons.IH)
  qed
qed

lemma Compare_numeric:
  assumes "length xs = length ys"
  shows "(Compare xs ys \<noteq> 1) = (be_nat xs \<le> be_nat ys)"
  unfolding Compare_be_nat [OF assms] by auto

lemma solves_numeric:
  "solves ext bytes (UnpackAsBytes t) n =
     (be_nat (ShakeSum256 ext 32 (bytes @ Uint32toB ext n)) \<le> unat (Unpack t))"
proof -
  have "length (ShakeSum256 ext 32 (bytes @ Uint32toB ext n)) = length (UnpackAsBytes t)"
    by (simp only: length_ShakeSum256 length_UnpackAsBytes)
  then show ?thesis
    unfolding solves_def by (simp only: Compare_numeric be_nat_UnpackAsBytes)
qed

lemma u32_le_max: "(n :: u32) \<le> 0xFFFFFFFF"
proof -
  have "(0xFFFFFFFF :: u32) = - 1" by simp
  then show ?thesis by (simp only: word_n1_ge)
qed

lemma mining_unfold:
  "mining ext clock m b tick =
     (if solves ext (inputBlockBytes m) (unpackedTarget m) (Nonce b)
      then Some (b\<lparr>Timestamp := clock tick,
             BlockHash := EncodeToString
               (ShakeSum256 ext 32 (inputBlockBytes m @ Uint32toB ext (Nonce b)))\<rparr>, None)
      else mining ext clock
             (m\<lparr>hashData := inputBlockBytes m @ Uint32toB ext (Nonce b),
                currentHash := ShakeSum256 ext 32 (inputBlockBytes m @ Uint32toB ext (Nonce b))\<rparr>)
             (b\<lparr>Timestamp := clock tick, Nonce := Nonce b + 1\<rparr>) (Suc tick))"
  by (subst mining.simps) (simp add: Let_def solves_def u32_le_max)


lemma mining_Some_solves:
  assumes "mining ext clock m b tick = Some y"
  shows "\<exists>n. solves ext (inputBlockBytes m) (unpackedTarget m) n"
proof (rule mining.raw_induct
    [where P = "\<lambda>ext clock m b tick y. \<exists>n. solves ext (inputBlockBytes m) (unpackedTarget m) n",
      rotated, OF assms])
  fix f :: "externals \<Rightarrow> (nat \<Rightarrow> u64) \<Rightarrow> Miner \<Rightarrow> Block \<Rightarrow> nat \<Rightarrow> (Block \<times> string option) option"
    and ext :: externals and clock :: "nat \<Rightarrow> u64" and m :: Miner and b :: Block
    and tick :: nat and y :: "Block \<times> string option"
  assume IH: "\<And>e c m' b' t y'. f e c m' b' t = Some y' \<Longrightarrow>
      \<exists>n. solves e (inputBlockBytes m') (unpackedTarget m') n"
  assume step: "(if Nonce b \<le> 0xFFFFFFFF
      then let b1 = b\<lparr>Timestamp := clock tick\<rparr>;
               m1 = m\<lparr>hashData := inputBlockBytes m @ Uint32toB ext (Nonce b1)\<rparr>;
               m2 = m1\<lparr>currentHash := ShakeSum256 ext 32 (hashData m1)\<rparr>
           in if Compare (currentHash m2) (unpackedTarget m2) \<noteq> 1
              then Some (b1\<lparr>BlockHash := EncodeToString (currentHash m2)\<rparr>, None)
              else f ext clock m2 (b1\<lparr>Nonce := Nonce b1 + 1\<rparr>) (Suc tick)
      else Some (b, Some ''you have reached the end of the defined search space! Impressive'')) =
     Some y"
  show "\<exists>n. solves ext (inputBlockBytes m) (unpackedTarget m) n"
  proof (cases "solves ext (inputBlockBytes m) (unpackedTarget m) (Nonce b)")
    case True
    then show ?thesis by blast
  next
    case False
    with step have "f ext clock
        (m\<lparr>hashData := inputBlockBytes m @ Uint32toB ext (Nonce b),
           currentHash := ShakeSum256 ext 32 (inputBlockBytes m @ Uint32toB ext (Nonce b))\<rparr>)
        (b\<lparr>Timestamp := clock tick, Nonce := Nonce b + 1\<rparr>) (Suc tick) = Some y"
      by (simp add: Let_def solves_def u32_le_max)
    from IH [OF this] show ?thesis by simp
  qed
qed

lemma mining_never_returns:
  assumes "\<forall>n. \<not> solves ext (inputBlockBytes m) (unpackedTarget m) n"
  shows "mining ext clock m b tick = None"
proof (cases "mining ext clock m b tick")
  case None
  then show ?thesis .
next
  case (Some y)
  then have "\<exists>n. solves ext (inputBlockBytes m) (unpackedTarget m) n"
    by (rule mining_Some_solves)
  with assms show ?thesis by blast
qed

lemma u32_succ:
  fixes a n :: u32
  assumes "a < n"
  shows "unat (a + 1) = Suc (unat a)"
proof -
  have "unat a < unat n" using assms by (rule word_less_nat_alt [THEN iffD1])
  moreover have "unat n < 2 ^ 32" using unsigned_less [of n] by simp
  ultimately have "unat a + 1 < 2 ^ 32" by simp
  then have "unat (a + 1) = unat a + unat (1 :: u32)"
    by (intro unat_add_lem [THEN iffD1]) simp
  then show ?thesis by simp
qed

lemma mining_finds:
  assumes sol: "solves ext (inputBlockBytes m) (unpackedTarget m) n"
    and least: "\<forall>k. Nonce b \<le> k \<and> k < n \<longrightarrow> \<not> solves ext (inputBlockBytes m) (unpackedTarget m) k"
    and le: "Nonce b \<le> n"
  shows "mining ext clock m b tick =
    Some (b\<lparr>Timestamp := clock (tick + (unat n - unat (Nonce b))), Nonce := n,
            BlockHash := EncodeToString
              (ShakeSum256 ext 32 (inputBlockBytes m @ Uint32toB ext n))\<rparr>, None)"
  using assms
proof (induction "unat n - unat (Nonce b)" arbitrary: m b tick)
  case 0
  have "unat (Nonce b) \<le> unat n" using "0.prems"(3) by (rule word_le_nat_alt [THEN iffD1])
  with "0.hyps" have "unat (Nonce b) = unat n" by simp
  then have e: "Nonce b = n" by (rule word_unat_eq_iff [THEN iffD2])
  have "solves ext (inputBlockBytes m) (unpackedTarget m) (Nonce b)"
    using "0.prems"(1) e by simp
  then have "mining ext clock m b tick =
      Some (b\<lparr>Timestamp := clock tick,
             BlockHash := EncodeToString
               (ShakeSum256 ext 32 (inputBlockBytes m @ Uint32toB ext (Nonce b)))\<rparr>, None)"
    by (subst mining_unfold) (simp only: if_True)
  then show ?case using e by simp
next
  case (Suc d)
  define m' where "m' = m\<lparr>hashData := inputBlockBytes m @ Uint32toB ext (Nonce b),
      currentHash := ShakeSum256 ext 32 (inputBlockBytes m @ Uint32toB ext (Nonce b))\<rparr>"
  define b' where "b' = b\<lparr>Timestamp := clock tick, Nonce := Nonce b + 1\<rparr>"
  have ul: "unat (Nonce b) < unat n" using Suc.hyps(2) by simp
  then have lt: "Nonce b < n" by (rule word_less_nat_alt [THEN iffD2])
  have us: "unat (Nonce b + 1) = Suc (unat (Nonce b))" using lt by (rule u32_succ)
  have ns: "\<not> solves ext (inputBlockBytes m) (unpackedTarget m) (Nonce b)"
    using Suc.prems(2) lt by blast
  have fields: "inputBlockBytes m' = inputBlockBytes m" "unpackedTarget m' = unpackedTarget m"
    "Nonce b' = Nonce b + 1"
    by (simp_all add: m'_def b'_def)
  have d: "d = unat n - unat (Nonce b')" using Suc.hyps(2) us by (simp add: fields)
  have sol': "solves ext (inputBlockBytes m') (unpackedTarget m') n"
    using Suc.prems(1) by (simp add: fields)
  have le': "Nonce b' \<le> n"
    unfolding fields using us ul by (intro word_le_nat_alt [THEN iffD2]) simp
  have least': "\<forall>k. Nonce b' \<le> k \<and> k < n \<longrightarrow>
      \<not> solves ext (inputBlockBytes m') (unpackedTarget m') k"
  proof (intro allI impI)
    fix k
    assume a: "Nonce b' \<le> k \<and> k < n"
    then have "unat (Nonce b + 1) \<le> unat k"
      unfolding fields by (intro word_le_nat_alt [THEN iffD1]) simp
    then have "unat (Nonce b) \<le> unat k" using us by simp
    then have "Nonce b \<le> k" by (rule word_le_nat_alt [THEN iffD2])
    then show "\<not> solves ext (inputBlockBytes m') (unpackedTarget m') k"
      unfolding fields using Suc.prems(2) a by blast
  qed
  have "mining ext clock m b tick = mining ext clock m' b' (Suc tick)"
    unfolding m'_def b'_def by (subst mining_unfold) (simp only: ns if_False)
  also have "\<dots> =
    Some (b'\<lparr>Timestamp := clock (Suc tick + (unat n - unat (Nonce b'))), Nonce := n,
            BlockHash := EncodeToString
              (ShakeSum256 ext 32 (inputBlockBytes m' @ Uint32toB ext n))\<rparr>, None)"
    using d sol' least' le' by (rule Suc.hyps(1))
  also have "Suc tick + (unat n - unat (Nonce b')) = tick + (unat n - unat (Nonce b))"
    unfolding fields us using ul by simp
  finally show ?case by (simp add: fields b'_def)
qed

lemma Unpack_genesis: "Unpack 0x1d0fffff = 0x0fffff * 2 ^ 208"
  by (simp add: Unpack_def push_bit_eq_mult)

lemma unat_Unpack_genesis: "unat (Unpack 0x1d0fffff) = 1048575 * 2 ^ 208"
  unfolding Unpack_genesis by simp

lemma ShakeSum256_32_head:
  "ShakeSum256 ext 32 d = shake256 ext d 0 # map (shake256 ext d) [1..<32]"
  by (simp add: ShakeSum256_def upt_rec [of 0])

lemma be_nat_zeros: "(\<forall>x \<in> set xs. x = 0) \<Longrightarrow> be_nat xs = 0"
  by (induction xs) simp_all

lemma be_nat_head_le: "unat x * 256 ^ length xs \<le> be_nat (x # xs)"
  by simp

lemma toy_hash: "be_nat (ShakeSum256 toy_ext 32 d) = unat (3 - last (0 # d)) * 256 ^ 31"
proof -
  have z: "be_nat (map (toy_shake d) [1..<32]) = 0"
    by (rule be_nat_zeros) (auto simp: toy_shake_def)
  have s: "shake256 toy_ext = toy_shake" by (simp add: toy_ext_def)
  show ?thesis
    unfolding ShakeSum256_32_head s be_nat.simps z by (simp add: toy_shake_def)
qed

lemma ff_hash: "255 * 256 ^ 31 \<le> be_nat (ShakeSum256 ff_ext 32 d)"
proof -
  have s: "shake256 ff_ext = (\<lambda>data i. 0xFF)" by (simp add: ff_ext_def)
  have "unat (0xFF :: u8) * 256 ^ length (map (shake256 ff_ext d) [1..<32])
      \<le> be_nat (ShakeSum256 ff_ext 32 d)"
    unfolding ShakeSum256_32_head s by (rule be_nat_head_le)
  then show ?thesis by simp
qed

lemma u32_below_3: "(k :: u32) < 3 \<Longrightarrow> k = 0 \<or> k = 1 \<or> k = 2"
proof -
  assume "k < 3"
  then have "unat k < unat (3 :: u32)" by (rule word_less_nat_alt [THEN iffD1])
  then consider "unat k = unat (0 :: u32)" | "unat k = unat (1 :: u32)"
    | "unat k = unat (2 :: u32)"
    by force
  then show ?thesis
  proof cases
    case 1
    then have "k = 0" by (rule word_unat_eq_iff [THEN iffD2])
    then show ?thesis by blast
  next
    case 2
    then have "k = 1" by (rule word_unat_eq_iff [THEN iffD2])
    then show ?thesis by blast
  next
    case 3
    then have "k = 2" by (rule word_unat_eq_iff [THEN iffD2])
    then show ?thesis by blast
  qed
qed

end
